theory Spec2Isabelle
  imports Main "HOL-Library.AList"
begin

section \<open>Library functions the package calls\<close>

text \<open>
  The package \<open>renders\<close> (files \<open>renders.go\<close> and \<open>utils.go\<close>) works on Go strings
  (byte sequences, here \<open>string\<close>) with a handful of functions of the Go standard
  library. Their behaviour on a Unix host (path separator \<open>/\<close>) is written out below.
\<close>

subsection \<open>strings.Contains\<close>

fun Contains :: "string \<Rightarrow> string \<Rightarrow> bool" where
  "Contains [] substr = (substr = [])"
| "Contains (c # s) substr =
     (take (length substr) (c # s) = substr \<or> Contains s substr)"

subsection \<open>filepath.Ext, filepath.Clean, filepath.Join, filepath.Rel, filepath.ToSlash\<close>

text \<open>
  \<open>Ext\<close> walks from the last byte to the left and stops at the first separator; the
  first dot met on the way starts the extension. \<open>Ext_scan\<close> takes the bytes still to be
  visited (reversed) and the bytes already passed.
\<close>

fun Ext_scan :: "string \<Rightarrow> string \<Rightarrow> string" where
  "Ext_scan [] passed = []"
| "Ext_scan (c # left) passed =
     (if c = CHR ''/'' then []
      else if c = CHR ''.'' then c # passed
      else Ext_scan left (c # passed))"

definition Ext :: "string \<Rightarrow> string" where
  "Ext path = Ext_scan (rev path) []"

text \<open>The elements of a path: the pieces between separators.\<close>

fun elements :: "string \<Rightarrow> string list" where
  "elements [] = [[]]"
| "elements (c # s) =
     (if c = CHR ''/'' then [] # elements s
      else (case elements s of e # es \<Rightarrow> (c # e) # es | [] \<Rightarrow> [[c]]))"

fun join_elements :: "string list \<Rightarrow> string" where
  "join_elements [] = []"
| "join_elements [e] = e"
| "join_elements (e # es) = e @ CHR ''/'' # join_elements es"

text \<open>
  \<open>Clean\<close>: empty and \<open>.\<close> elements are dropped, \<open>..\<close> removes the element before it,
  is dropped at the root of a rooted path and kept at the front of a relative one.
  \<open>clean_elements\<close> holds the output elements in reverse.
\<close>

fun clean_elements :: "bool \<Rightarrow> string list \<Rightarrow> string list \<Rightarrow> string list" where
  "clean_elements rooted [] out = rev out"
| "clean_elements rooted (e # es) out =
     (if e = [] \<or> e = ''.'' then clean_elements rooted es out
      else if e = ''..'' then
        (case out of
           [] \<Rightarrow> clean_elements rooted es (if rooted then [] else [''..''])
         | e' # below \<Rightarrow>
             if e' = ''..'' then clean_elements rooted es (''..'' # out)
             else clean_elements rooted es below)
      else clean_elements rooted es (e # out))"

definition Clean :: "string \<Rightarrow> string" where
  "Clean path =
     (if path = [] then ''.''
      else
        let rooted = (hd path = CHR ''/'');
            out = join_elements (clean_elements rooted (elements path) [])
        in if rooted then CHR ''/'' # out
           else if out = [] then ''.'' else out)"

text \<open>\<open>Join\<close> of two elements: empty elements are ignored, the result is cleaned.\<close>

definition Join :: "string \<Rightarrow> string \<Rightarrow> string" where
  "Join a b =
     (if a \<noteq> [] then Clean (a @ CHR ''/'' # b)
      else if b \<noteq> [] then Clean b
      else [])"

text \<open>On a Unix host the separator is already the slash.\<close>

definition ToSlash :: "string \<Rightarrow> string" where
  "ToSlash path = path"

fun strip_common :: "string list \<Rightarrow> string list \<Rightarrow> string list \<times> string list" where
  "strip_common (b # bs) (t # ts) =
     (if b = t then strip_common bs ts else (b # bs, t # ts))"
| "strip_common bs ts = (bs, ts)"

datatype error =
    ReadFileError string
  | EmptyTemplateError
  | RelError string string
  | ParseError string
  | SliceBoundsOutOfRange
  | IndexOutOfRange
  | NilDereference

text \<open>
  The elements of a cleaned path as \<open>Rel\<close> walks them: the root \<open>/\<close> is the single
  empty element before its slash, and \<open>.\<close> as a base has no element.
\<close>

definition rel_elements :: "string \<Rightarrow> string list" where
  "rel_elements p = (if p = [] then [] else if p = ''/'' then [[]] else elements p)"

text \<open>
  \<open>Rel\<close>: both paths are cleaned; equal paths give \<open>.\<close>; a rooted and a relative path
  cannot be related; otherwise the common leading elements are dropped, and neither can
  the paths be related when the first base element that differs from the target's is
  \<open>..\<close>; every element left of the base becomes \<open>..\<close>, followed by what is left of the
  target.
\<close>

definition Rel :: "string \<Rightarrow> string \<Rightarrow> error + string" where
  "Rel basepath targpath =
     (let base = Clean basepath; targ = Clean targpath in
      if targ = base then Inr ''.''
      else
        let base' = (if base = ''.'' then [] else base);
            baseSlashed = (base' \<noteq> [] \<and> hd base' = CHR ''/'');
            targSlashed = (targ \<noteq> [] \<and> hd targ = CHR ''/'')
        in if baseSlashed \<noteq> targSlashed then Inl (RelError basepath targpath)
           else
             (case strip_common (rel_elements base') (rel_elements targ) of
                (bs, ts) \<Rightarrow>
                  if bs \<noteq> [] \<and> ts \<noteq> [] \<and> hd bs = ''..'' then Inl (RelError basepath targpath)
                  else Inr (join_elements (map (\<lambda>_. ''..'') bs @ ts))))"

subsection \<open>regexp\<close>

text \<open>
  The two patterns of the package are sequences of literal bytes, optional literal
  bytes (\<open>x?\<close>) and greedy repetitions of a byte class (\<open>[...]*\<close>); every capture group
  of the patterns encloses exactly one repetition. \<open>rmatch\<close> is the leftmost-first
  (backtracking) match of such a sequence at the start of a string: a greedy item takes
  a byte first and gives it back only when the rest of the pattern fails. It returns
  the text of every repetition, in order, and the unmatched rest of the string.
\<close>

datatype rx = Lit char | Opt char | Star "char \<Rightarrow> bool"

fun rmatch :: "rx list \<Rightarrow> string \<Rightarrow> (string list \<times> string) option" where
  "rmatch [] s = Some ([], s)"
| "rmatch (Lit c # r) [] = None"
| "rmatch (Lit c # r) (x # xs) = (if x = c then rmatch r xs else None)"
| "rmatch (Opt c # r) [] = rmatch r []"
| "rmatch (Opt c # r) (x # xs) =
     (if x = c then
        (case rmatch r xs of Some m \<Rightarrow> Some m | None \<Rightarrow> rmatch r (x # xs))
      else rmatch r (x # xs))"
| "rmatch (Star P # r) [] =
     (case rmatch r [] of Some (gs, rest) \<Rightarrow> Some ([] # gs, rest) | None \<Rightarrow> None)"
| "rmatch (Star P # r) (x # xs) =
     (case (if P x then rmatch (Star P # r) xs else None) of
        Some (g # gs, rest) \<Rightarrow> Some ((x # g) # gs, rest)
      | _ \<Rightarrow>
        (case rmatch r (x # xs) of Some (gs, rest) \<Rightarrow> Some ([] # gs, rest) | None \<Rightarrow> None))"

text \<open>
  The leftmost match in a string: the text before it, the match, the texts of its
  groups, and the text after it.
\<close>

fun search :: "rx list \<Rightarrow> string \<Rightarrow> (string \<times> string \<times> string list \<times> string) option" where
  "search re [] =
     (case rmatch re [] of Some (gs, rest) \<Rightarrow> Some ([], [], gs, rest) | None \<Rightarrow> None)"
| "search re (c # s) =
     (case rmatch re (c # s) of
        Some (gs, rest) \<Rightarrow> Some ([], take (length (c # s) - length rest) (c # s), gs, rest)
      | None \<Rightarrow>
        (case search re s of
           Some (before, m, gs, after) \<Rightarrow> Some (c # before, m, gs, after)
         | None \<Rightarrow> None))"

text \<open>
  \<open>FindStringSubmatch\<close>: the leftmost match followed by the texts of its groups; nil
  (a slice of length 0) when nothing matches.
\<close>

definition FindStringSubmatch :: "rx list \<Rightarrow> string \<Rightarrow> string list" where
  "FindStringSubmatch re s =
     (case search re s of Some (before, m, gs, after) \<Rightarrow> m # gs | None \<Rightarrow> [])"

text \<open>
  \<open>FindAllString\<close> with \<open>n = -1\<close>: the successive non-overlapping matches. Both patterns
  of the package begin with literal bytes, so a match is never empty and the scan goes
  on behind it; the scan written here stops at an empty match at the start of what is left.
\<close>

function FindAllString :: "rx list \<Rightarrow> string \<Rightarrow> string list" where
  "FindAllString re s =
     (case search re s of
        None \<Rightarrow> []
      | Some (before, m, gs, after) \<Rightarrow>
          if length after < length s then m # FindAllString re after else [m])"
  by pat_completeness auto
termination
  by (relation "measure (\<lambda>(re, s). length s)") auto

declare FindAllString.simps [simp del]

text \<open>
  \<open>FindAllStringSubmatch\<close> with \<open>n = -1\<close>: the same matches, each followed by the texts
  of its groups. The package does not call it; the properties below use it to name the
  tags of a text.
\<close>

function FindAllStringSubmatch :: "rx list \<Rightarrow> string \<Rightarrow> string list list" where
  "FindAllStringSubmatch re s =
     (case search re s of
        None \<Rightarrow> []
      | Some (before, m, gs, after) \<Rightarrow>
          if length after < length s then (m # gs) # FindAllStringSubmatch re after
          else [m # gs])"
  by pat_completeness auto
termination
  by (relation "measure (\<lambda>(re, s). length s)") auto

declare FindAllStringSubmatch.simps [simp del]

text \<open>Indexing a slice panics out of range.\<close>

definition index :: "'a list \<Rightarrow> nat \<Rightarrow> error + 'a" where
  "index xs i = (if i < length xs then Inr (xs ! i) else Inl IndexOutOfRange)"

text \<open>
  \<open>ReplaceAllStringFunc\<close>: every match is replaced by what \<open>repl\<close> returns for it. The
  package passes a closure that updates two local variables of its caller; \<open>repl\<close>
  takes their values and returns the new ones. \<open>Inl\<close> is a panic inside the closure.
\<close>

function ReplaceAllStringFunc ::
  "rx list \<Rightarrow> string \<Rightarrow> ('s \<Rightarrow> string \<Rightarrow> error + string \<times> 's) \<Rightarrow> 's \<Rightarrow> error + string \<times> 's" where
  "ReplaceAllStringFunc re src repl st =
     (case search re src of
        None \<Rightarrow> Inr (src, st)
      | Some (before, m, gs, after) \<Rightarrow>
          (case repl st m of
             Inl p \<Rightarrow> Inl p
           | Inr (out, st') \<Rightarrow>
               if length after < length src then
                 (case ReplaceAllStringFunc re after repl st' of
                    Inl p \<Rightarrow> Inl p
                  | Inr (r, st'') \<Rightarrow> Inr (before @ out @ r, st''))
               else Inr (before @ out @ after, st')))"
  by pat_completeness auto
termination
  by (relation "measure (\<lambda>(re, src, repl, st). length src)") auto

declare ReplaceAllStringFunc.simps [simp del]

subsection \<open>fmt.Sprintf with the verb for a decimal integer\<close>

fun decimal :: "nat \<Rightarrow> string" where
  "decimal n =
     (if n < 10 then [''0123456789'' ! n]
      else decimal (n div 10) @ [''0123456789'' ! (n mod 10)])"

declare decimal.simps [simp del]

section \<open>The package\<close>

subsection \<open>Package variables (renders.go, lines 13 to 26)\<close>

record namedTemplate =
  Name :: string
  Src :: string

record globals =
  cache :: "namedTemplate list"
  regularTemplateDefs :: "string list"
  basePath :: string
  exts :: "string list"

text \<open>The class \<open>[a-zA-Z0-9]\<close>.\<close>

definition alnum :: "char \<Rightarrow> bool" where
  "alnum c = (c \<in> set ''abcdefghijklmnopqrstuvwxyzABCDEFGHIJKLMNOPQRSTUVWXYZ0123456789'')"

definition reDefineTag :: "rx list" where
  \<open>reDefineTag =
     map Lit ''{{'' @ [Opt CHR '' ''] @ map Lit ''define "'' @
     [Star (\<lambda>c. c \<noteq> CHR ''"''), Lit CHR ''"'', Opt CHR '' '', Opt CHR ''"'',
      Star alnum, Opt CHR ''"'', Opt CHR '' ''] @ map Lit ''}}''\<close>

definition reTemplateTag :: "rx list" where
  \<open>reTemplateTag =
     map Lit ''{{'' @ [Opt CHR '' ''] @ map Lit ''template "'' @
     [Star (\<lambda>c. c \<noteq> CHR ''"''), Lit CHR ''"'', Opt CHR '' '',
      Star (\<lambda>c. c \<noteq> CHR '' ''), Opt CHR '' ''] @ map Lit ''}}''\<close>

subsection \<open>The outside world\<close>

text \<open>
  What the package reads from its environment: the files \<open>ioutil.ReadFile\<close> can read,
  with their bytes (reading any other path fails); the paths \<open>filepath.Walk\<close> hands to
  its callback for a root, in order; and the parser of \<open>html/template\<close>, which for a
  function map (the names it binds) and a template text reports a syntax error or none.
\<close>

record world =
  files :: "(string \<times> string) list"
  Walk :: "string \<Rightarrow> string list"
  Parse :: "string list \<Rightarrow> string \<Rightarrow> string option"

subsection \<open>utils.go\<close>

text \<open>\<open>path[len(base)+1:]\<close> panics when the path is shorter than that.\<close>

definition generateTemplateName :: "string \<Rightarrow> string \<Rightarrow> error + string" where
  "generateTemplateName base path =
     (if length path < length base + 1 then Inl SliceBoundsOutOfRange
      else Inr (ToSlash (drop (length base + 1) path)))"

definition file_content :: "world \<Rightarrow> string \<Rightarrow> error + string" where
  "file_content w path =
     (case map_of (files w) path of
        None \<Rightarrow> Inl (ReadFileError path)
      | Some s \<Rightarrow> if length s < 1 then Inl EmptyTemplateError else Inr s)"

definition inExtensions :: "globals \<Rightarrow> string \<Rightarrow> bool" where
  "inExtensions g ext = (ext \<in> set (exts g))"

subsection \<open>renders.go: the includer \<open>add\<close> (lines 117 to 160)\<close>

text \<open>
  \<open>add\<close> returns an error value (\<open>Some err\<close>) or nil (\<open>None\<close>) together with the package
  variables as it leaves them; \<open>Inl\<close> is a panic. \<open>add_tags\<close> is its loop over the
  matches of \<open>reTemplateTag\<close> (lines 146 to 157); the value the recursive call of line
  156 returns is dropped there.
\<close>

function add :: "world \<Rightarrow> string \<Rightarrow> globals \<Rightarrow> error + error option \<times> globals"
  and add_tags :: "world \<Rightarrow> string list \<Rightarrow> globals \<Rightarrow> error + globals" where
  "add w path g =
     (case file_content w path of
        Inl err \<Rightarrow> Inr (Some err, g)
      | Inr tplSrc \<Rightarrow>
          (case generateTemplateName (basePath g) path of
             Inl p \<Rightarrow> Inl p
           | Inr tplName \<Rightarrow>
               if tplName \<in> set (map Name (cache g)) then Inr (None, g)
               else
                 let nt = \<lparr>Name = tplName, Src = tplSrc\<rparr>;
                     g' = g\<lparr>cache := cache g @ [nt]\<rparr>
                 in (case add_tags w (FindAllString reTemplateTag (Src nt)) g' of
                       Inl p \<Rightarrow> Inl p
                     | Inr g'' \<Rightarrow> Inr (None, g''))))"
| "add_tags w [] g = Inr g"
| "add_tags w (raw # raws) g =
     (case index (FindStringSubmatch reTemplateTag raw) 1 of
        Inl p \<Rightarrow> Inl p
      | Inr templatePath \<Rightarrow>
          let ext = Ext templatePath in
          if \<not> Contains templatePath ext then
            add_tags w raws (g\<lparr>regularTemplateDefs := regularTemplateDefs g @ [templatePath]\<rparr>)
          else
            (case add w (Join (basePath g) templatePath) g of
               Inl p \<Rightarrow> Inl p
             | Inr (_, g') \<Rightarrow> add_tags w raws g'))"
  by pat_completeness auto

text \<open>
  Termination: every call that goes on behind the check of lines 126 to 136 puts a name
  into the cache that was not there, and the names are those of the finitely many
  readable files.
\<close>

definition known :: "world \<Rightarrow> globals \<Rightarrow> string set" where
  "known w g = {n. \<exists>p \<in> fst ` set (files w). generateTemplateName (basePath g) p = Inr n}"

definition pending :: "world \<Rightarrow> globals \<Rightarrow> nat" where
  "pending w g = card (known w g - set (map Name (cache g)))"

lemma finite_known: "finite (known w g)"
proof -
  have "known w g \<subseteq> (\<lambda>p. projr (generateTemplateName (basePath g) p)) ` (fst ` set (files w))"
    by (force simp: known_def)
  then show ?thesis by (rule finite_subset) simp
qed

lemma add_grows_p:
  "add_add_tags_dom (Inl (w, path, g)) \<Longrightarrow>
     (\<forall>r g'. add w path g = Inr (r, g') \<longrightarrow>
        basePath g' = basePath g \<and> set (map Name (cache g)) \<subseteq> set (map Name (cache g')))"
  "add_add_tags_dom (Inr (w, raws, g)) \<Longrightarrow>
     (\<forall>g'. add_tags w raws g = Inr g' \<longrightarrow>
        basePath g' = basePath g \<and> set (map Name (cache g)) \<subseteq> set (map Name (cache g')))"
proof (induct rule: add_add_tags.pinduct)
  case (1 w path g)
  show ?case
  proof (intro allI impI)
    fix r g'
    assume eq: "add w path g = Inr (r, g')"
    show "basePath g' = basePath g \<and> set (map Name (cache g)) \<subseteq> set (map Name (cache g'))"
    proof (cases "file_content w path")
      case (Inl err)
      with eq 1(1) show ?thesis by (simp add: add.psimps)
    next
      case src: (Inr src)
      show ?thesis
      proof (cases "generateTemplateName (basePath g) path")
        case (Inl p)
        with eq 1(1) src show ?thesis by (simp add: add.psimps)
      next
        case n: (Inr n)
        show ?thesis
        proof (cases "n \<in> set (map Name (cache g))")
          case True
          with eq 1(1) src n show ?thesis by (simp add: add.psimps)
        next
          case False
          let ?g1 = "g\<lparr>cache := cache g @ [\<lparr>Name = n, Src = src\<rparr>]\<rparr>"
          from eq 1(1) src n False
          have "add_tags w (FindAllString reTemplateTag src) ?g1 = Inr g'"
            by (simp add: add.psimps Let_def split: sum.splits)
          with 1(2)[OF src n False refl refl]
          have "basePath g' = basePath ?g1"
            "set (map Name (cache ?g1)) \<subseteq> set (map Name (cache g'))"
            by simp_all
          then show ?thesis by auto
        qed
      qed
    qed
  qed
next
  case (2 w g)
  then show ?case by (simp add: add_tags.psimps)
next
  case (3 w raw raws g)
  show ?case
  proof (intro allI impI)
    fix g'
    assume eq: "add_tags w (raw # raws) g = Inr g'"
    show "basePath g' = basePath g \<and> set (map Name (cache g)) \<subseteq> set (map Name (cache g'))"
    proof (cases "index (FindStringSubmatch reTemplateTag raw) 1")
      case (Inl p)
      with eq 3(1) show ?thesis by (simp add: add_tags.psimps)
    next
      case tp: (Inr tp)
      show ?thesis
      proof (cases "Contains tp (Ext tp)")
        case False
        let ?g1 = "g\<lparr>regularTemplateDefs := regularTemplateDefs g @ [tp]\<rparr>"
        from eq 3(1) tp False have "add_tags w raws ?g1 = Inr g'"
          by (simp add: add_tags.psimps)
        with 3(2)[OF tp refl False] show ?thesis by simp
      next
        case True
        then have c: "\<not> \<not> Contains tp (Ext tp)" by simp
        from eq 3(1) tp True obtain r g1 where
          a: "add w (Join (basePath g) tp) g = Inr (r, g1)" and
          b: "add_tags w raws g1 = Inr g'"
          by (auto simp: add_tags.psimps split: sum.splits prod.splits)
        from 3(3)[OF tp refl c] a
        have 1: "basePath g1 = basePath g" "set (map Name (cache g)) \<subseteq> set (map Name (cache g1))"
          by blast+
        from 3(4)[OF tp refl c a refl] b
        have 2: "basePath g' = basePath g1" "set (map Name (cache g1)) \<subseteq> set (map Name (cache g'))"
          by blast+
        from 1 2 show ?thesis by auto
      qed
    qed
  qed
qed

lemma pending_mono:
  assumes "basePath g' = basePath g"
    and "set (map Name (cache g)) \<subseteq> set (map Name (cache g'))"
  shows "pending w g' \<le> pending w g"
proof -
  have "known w g' = known w g" by (simp add: known_def assms(1))
  then have "known w g' - set (map Name (cache g')) \<subseteq> known w g - set (map Name (cache g))"
    using assms(2) by blast
  moreover have "finite (known w g - set (map Name (cache g)))"
    by (simp add: finite_known)
  ultimately show ?thesis
    unfolding pending_def by (rule card_mono[rotated])
qed

lemma pending_less:
  assumes "file_content w path = Inr src"
    and "generateTemplateName (basePath g) path = Inr n"
    and "n \<notin> set (map Name (cache g))"
  shows "pending w (g\<lparr>cache := cache g @ [\<lparr>Name = n, Src = src\<rparr>]\<rparr>) < pending w g"
proof -
  let ?g' = "g\<lparr>cache := cache g @ [\<lparr>Name = n, Src = src\<rparr>]\<rparr>"
  from assms(1) have "path \<in> fst ` set (files w)"
    by (auto simp: file_content_def split: option.splits if_splits dest!: map_of_SomeD intro: rev_image_eqI)
  with assms(2) have k: "n \<in> known w g" by (auto simp: known_def)
  have e: "known w ?g' = known w g" by (simp add: known_def)
  have "known w ?g' - set (map Name (cache ?g')) \<subset> known w g - set (map Name (cache g))"
    unfolding e using k assms(3) by auto
  moreover have "finite (known w g - set (map Name (cache g)))"
    by (simp add: finite_known)
  ultimately show ?thesis
    unfolding pending_def by (rule psubset_card_mono[rotated])
qed

termination add
proof (relation "measures [\<lambda>x. case x of Inl (w, path, g) \<Rightarrow> pending w g | Inr (w, raws, g) \<Rightarrow> pending w g,
                           \<lambda>x. case x of Inl (w, path, g) \<Rightarrow> 0 | Inr (w, raws, g) \<Rightarrow> Suc (length raws)]",
       goal_cases)
  case 1
  then show ?case by simp
next
  case (2 w path g src n nt g')
  then show ?case using pending_less[of w path src g n] by simp
next
  case (3 w raw raws g tp ext)
  then show ?case by (simp add: pending_def known_def)
next
  case (4 w raw raws g tp ext)
  then show ?case by simp
next
  case (5 w raw raws g tp ext r x g')
  from 5(4,5) have "add w (Join (basePath g) tp) g = Inr (x, g')" by simp
  with add_grows_p(1)[OF 5(6)]
  have "basePath g' = basePath g" "set (map Name (cache g)) \<subseteq> set (map Name (cache g'))"
    by blast+
  then have "pending w g' \<le> pending w g" by (rule pending_mono)
  then show ?case by auto
qed

declare add.simps [simp del]

declare add_tags.simps [simp del]

subsection \<open>renders.go: the walk callback and \<open>loadTemplates\<close> (lines 43 to 115)\<close>

text \<open>
  Lines 70 to 85: the closure passed to \<open>ReplaceAllStringFunc\<close> for the name \<open>t\<close>. Its
  state is the pair of the local variables \<open>found\<close> and \<open>defineIdx\<close> (a Go \<open>int\<close>, which
  no text is long enough to overflow).
\<close>

definition Sprintf_define :: "string \<Rightarrow> nat \<Rightarrow> string" where
  \<open>Sprintf_define name defineIdx =
     ''{{ define "'' @ name @ ''_invalidated_#'' @ decimal defineIdx @ ''" }}''\<close>

definition redefine :: "string \<Rightarrow> bool \<times> nat \<Rightarrow> string \<Rightarrow> error + string \<times> (bool \<times> nat)" where
  "redefine t st raw =
     (case st of (found, defineIdx) \<Rightarrow>
        (case index (FindStringSubmatch reDefineTag raw) 1 of
           Inl p \<Rightarrow> Inl p
         | Inr name \<Rightarrow>
             if name \<noteq> t then Inr (raw, (found, defineIdx))
             else if \<not> found then Inr (raw, (True, defineIdx))
             else Inr (Sprintf_define name (defineIdx + 1), (found, defineIdx + 1))))"

text \<open>Lines 69 to 86: the loop over the cache for one name.\<close>

fun resolve_cache ::
  "string \<Rightarrow> bool \<times> nat \<Rightarrow> namedTemplate list \<Rightarrow> error + namedTemplate list \<times> (bool \<times> nat)" where
  "resolve_cache t st [] = Inr ([], st)"
| "resolve_cache t st (nt # nts) =
     (case ReplaceAllStringFunc reDefineTag (Src nt) (redefine t) st of
        Inl p \<Rightarrow> Inl p
      | Inr (src', st') \<Rightarrow>
          (case resolve_cache t st' nts of
             Inl p \<Rightarrow> Inl p
           | Inr (nts', st'') \<Rightarrow> Inr (nt\<lparr>Src := src'\<rparr> # nts', st'')))"

text \<open>Lines 65 to 87: the loop over \<open>regularTemplateDefs\<close>.\<close>

fun resolve :: "string list \<Rightarrow> namedTemplate list \<Rightarrow> error + namedTemplate list" where
  "resolve [] c = Inr c"
| "resolve (t # ts) c =
     (case resolve_cache t (False, 0) c of
        Inl p \<Rightarrow> Inl p
      | Inr (c', st) \<Rightarrow> resolve ts c')"

text \<open>
  A value of \<open>*template.Template\<close> as far as the package decides it: the name the set
  was created with, and the names and texts parsed into it, in order.
\<close>

record Template =
  root :: string
  texts :: "(string \<times> string) list"

text \<open>
  Lines 89 to 105. The first fragment creates the template set under its own name, a
  later one adds a template to the set (on a nil set that would be a nil dereference);
  \<open>template.Must\<close> panics with the error of \<open>Parse\<close>.
\<close>

fun parse_cache ::
  "world \<Rightarrow> string list \<Rightarrow> namedTemplate list \<Rightarrow> nat \<Rightarrow> Template option \<Rightarrow> error + Template option" where
  "parse_cache w funcMap [] i baseTmpl = Inr baseTmpl"
| "parse_cache w funcMap (nt # nts) i baseTmpl =
     (case (if i = 0 then Inr \<lparr>root = Name nt, texts = []\<rparr>
            else (case baseTmpl of None \<Rightarrow> Inl NilDereference | Some b \<Rightarrow> Inr b)) of
        Inl p \<Rightarrow> Inl p
      | Inr b \<Rightarrow>
          (case Parse w funcMap (Src nt) of
             Some err \<Rightarrow> Inl (ParseError err)
           | None \<Rightarrow>
               parse_cache w funcMap nts (i + 1)
                 (Some (b\<lparr>texts := texts b @ [(Name nt, Src nt)]\<rparr>))))"

text \<open>
  The map \<open>templates\<close> of line 47, as the list of its keys with their values: storing
  under a key replaces the value the key has or adds the key (\<open>AList.update\<close>), looking
  a key up is \<open>map_of\<close>.
\<close>

type_synonym templates = "(string \<times> Template option) list"

text \<open>
  The callback of \<open>filepath.Walk\<close> (lines 49 to 112) for one path. It returns nil
  (\<open>None\<close>) or an error, with the map \<open>templates\<close> and the package variables.
\<close>

definition walkFn ::
  "world \<Rightarrow> string list \<Rightarrow> string \<Rightarrow> templates \<times> globals \<Rightarrow>
   error + error option \<times> templates \<times> globals" where
  "walkFn w funcMap path tg =
     (case tg of (templates, g) \<Rightarrow>
        (case Rel (basePath g) path of
           Inl err \<Rightarrow> Inr (Some err, templates, g)
         | Inr r \<Rightarrow>
             let ext = Ext r in
             if \<not> inExtensions g ext then Inr (None, templates, g)
             else
               (case add w path g of
                  Inl p \<Rightarrow> Inl p
                | Inr (Some err, g1) \<Rightarrow> Inl err
                | Inr (None, g1) \<Rightarrow>
                    (case resolve (regularTemplateDefs g1) (cache g1) of
                       Inl p \<Rightarrow> Inl p
                     | Inr c \<Rightarrow>
                         (case parse_cache w funcMap c 0 None of
                            Inl p \<Rightarrow> Inl p
                          | Inr baseTmpl \<Rightarrow>
                              (case generateTemplateName (basePath g1) path of
                                 Inl p \<Rightarrow> Inl p
                               | Inr tname \<Rightarrow>
                                   Inr (None, AList.update tname baseTmpl templates,
                                        g1\<lparr>cache := []\<rparr>)))))))"

text \<open>\<open>filepath.Walk\<close> stops at the first error its callback returns and returns it.\<close>

fun walk_paths ::
  "world \<Rightarrow> string list \<Rightarrow> string list \<Rightarrow> templates \<times> globals \<Rightarrow>
   error + error option \<times> templates \<times> globals" where
  "walk_paths w funcMap [] tg = Inr (None, tg)"
| "walk_paths w funcMap (path # paths) tg =
     (case walkFn w funcMap path tg of
        Inl p \<Rightarrow> Inl p
      | Inr (Some err, tg') \<Rightarrow> Inr (Some err, tg')
      | Inr (None, tg') \<Rightarrow> walk_paths w funcMap paths tg')"

text \<open>
  \<open>loadTemplates\<close> returns the map and the error of the walk (line 114), or panics.
  The lock of lines 44 and 45 orders whole calls and has no part in one call.
\<close>

definition loadTemplates ::
  "world \<Rightarrow> string list \<Rightarrow> globals \<Rightarrow> error + (templates \<times> error option) \<times> globals" where
  "loadTemplates w funcMap g =
     (case walk_paths w funcMap (Walk w (basePath g)) ([], g) of
        Inl p \<Rightarrow> Inl p
      | Inr (err, templates, g') \<Rightarrow> Inr ((templates, err), g'))"

subsection \<open>\<open>Load\<close> and \<open>LoadWithFuncMap\<close> (lines 28 to 41)\<close>

record Options =
  Directory :: string
  Extensions :: "string list"
  Funcs :: "string list"

definition Load :: "world \<Rightarrow> Options \<Rightarrow> globals \<Rightarrow> error + (templates \<times> error option) \<times> globals" where
  "Load w opt g =
     loadTemplates w [] (g\<lparr>basePath := Directory opt, exts := Extensions opt\<rparr>)"

definition LoadWithFuncMap ::
  "world \<Rightarrow> Options \<Rightarrow> globals \<Rightarrow> error + (templates \<times> error option) \<times> globals" where
  "LoadWithFuncMap w opt g =
     loadTemplates w (Funcs opt) (g\<lparr>basePath := Directory opt, exts := Extensions opt\<rparr>)"

text \<open>The package variables when the program starts: all zero values.\<close>

definition init :: globals where
  "init = \<lparr>cache = [], regularTemplateDefs = [], basePath = [], exts = []\<rparr>"

section \<open>Properties\<close>

subsection \<open>The test of line 150\<close>

text \<open>
  \<open>Ext\<close> returns a suffix of its argument, so the argument always contains it: the
  condition of line 150 is false for every target, and line 151 is never reached.
\<close>

lemma Ext_scan_suffix: "\<exists>pre. rev left @ passed = pre @ Ext_scan left passed"
proof (induction left arbitrary: passed)
  case Nil
  show ?case by simp
next
  case (Cons c left)
  show ?case
  proof (cases "c = CHR ''/'' \<or> c = CHR ''.''")
    case True
    then show ?thesis by auto
  next
    case False
    with Cons[of "c # passed"] show ?thesis by simp
  qed
qed

lemma Ext_suffix: "\<exists>pre. path = pre @ Ext path"
  using Ext_scan_suffix[of "rev path" "[]"] by (simp add: Ext_def)

lemma Contains_append: "Contains (pre @ s) s"
proof (induction pre)
  case Nil
  show ?case by (cases s) simp_all
next
  case (Cons c pre)
  then show ?case by simp
qed

lemma Contains_Ext: "Contains templatePath (Ext templatePath)"
proof -
  obtain pre where "templatePath = pre @ Ext templatePath"
    using Ext_suffix by blast
  then show ?thesis using Contains_append[of pre "Ext templatePath"] by simp
qed

lemma add_tags_Cons:
  "add_tags w (raw # raws) g =
     (case index (FindStringSubmatch reTemplateTag raw) 1 of
        Inl p \<Rightarrow> Inl p
      | Inr templatePath \<Rightarrow>
          (case add w (Join (basePath g) templatePath) g of
             Inl p \<Rightarrow> Inl p
           | Inr (r, g') \<Rightarrow> add_tags w raws g'))"
  by (simp add: add_tags.simps Contains_Ext split: sum.splits)


lemma add_Inr_cases:
  assumes "add w path g = Inr (r, g')"
  obtains (unreadable) e where "file_content w path = Inl e" "r = Some e" "g' = g"
  | (included) src n where "file_content w path = Inr src"
      "generateTemplateName (basePath g) path = Inr n" "n \<in> set (map Name (cache g))"
      "r = None" "g' = g"
  | (appended) src n where "file_content w path = Inr src"
      "generateTemplateName (basePath g) path = Inr n" "n \<notin> set (map Name (cache g))"
      "r = None"
      "add_tags w (FindAllString reTemplateTag src)
         (g\<lparr>cache := cache g @ [\<lparr>Name = n, Src = src\<rparr>]\<rparr>) = Inr g'"
proof (cases "file_content w path")
  case (Inl e)
  with assms have "r = Some e" "g' = g" by (simp_all add: add.simps)
  with Inl show ?thesis by (rule unreadable)
next
  case src: (Inr src)
  show ?thesis
  proof (cases "generateTemplateName (basePath g) path")
    case (Inl p)
    with assms src show ?thesis by (simp add: add.simps)
  next
    case n: (Inr n)
    show ?thesis
    proof (cases "n \<in> set (map Name (cache g))")
      case True
      with assms src n have "r = None" "g' = g" by (simp_all add: add.simps)
      with src n True show ?thesis by (rule included)
    next
      case False
      with assms src n have "r = None"
        "add_tags w (FindAllString reTemplateTag src)
           (g\<lparr>cache := cache g @ [\<lparr>Name = n, Src = src\<rparr>]\<rparr>) = Inr g'"
        by (auto simp: add.simps Let_def split: sum.splits)
      with src n False show ?thesis by (rule appended)
    qed
  qed
qed

lemma add_tags_Inr_cases:
  assumes "add_tags w (raw # raws) g = Inr g'"
  obtains t r g1 where "index (FindStringSubmatch reTemplateTag raw) 1 = Inr t"
    "add w (Join (basePath g) t) g = Inr (r, g1)" "add_tags w raws g1 = Inr g'"
proof (cases "index (FindStringSubmatch reTemplateTag raw) 1")
  case (Inl p)
  with assms show ?thesis by (simp add: add_tags_Cons)
next
  case t: (Inr t)
  show ?thesis
  proof (cases "add w (Join (basePath g) t) g")
    case (Inl p)
    with assms t show ?thesis by (simp add: add_tags_Cons)
  next
    case (Inr rg)
    obtain r g1 where rg: "rg = (r, g1)" by (cases rg)
    from assms t Inr rg have "add_tags w raws g1 = Inr g'" by (simp add: add_tags_Cons)
    with t Inr rg show ?thesis using that by simp
  qed
qed

lemma add_runs_induct [consumes 0, case_names unreadable included appended Nil Cons]:
  assumes unreadable: "\<And>path g e. file_content w path = Inl e \<Longrightarrow> P path g (Some e) g"
    and included: "\<And>path g src n. file_content w path = Inr src \<Longrightarrow>
        generateTemplateName (basePath g) path = Inr n \<Longrightarrow> n \<in> set (map Name (cache g)) \<Longrightarrow>
        P path g None g"
    and appended: "\<And>path g src n g'. file_content w path = Inr src \<Longrightarrow>
        generateTemplateName (basePath g) path = Inr n \<Longrightarrow> n \<notin> set (map Name (cache g)) \<Longrightarrow>
        add_tags w (FindAllString reTemplateTag src)
          (g\<lparr>cache := cache g @ [\<lparr>Name = n, Src = src\<rparr>]\<rparr>) = Inr g' \<Longrightarrow>
        Q (FindAllString reTemplateTag src)
          (g\<lparr>cache := cache g @ [\<lparr>Name = n, Src = src\<rparr>]\<rparr>) g' \<Longrightarrow>
        P path g None g'"
    and Nil: "\<And>g. Q [] g g"
    and Cons: "\<And>raw raws g t r g1 g'.
        index (FindStringSubmatch reTemplateTag raw) 1 = Inr t \<Longrightarrow>
        add w (Join (basePath g) t) g = Inr (r, g1) \<Longrightarrow>
        P (Join (basePath g) t) g r g1 \<Longrightarrow>
        add_tags w raws g1 = Inr g' \<Longrightarrow> Q raws g1 g' \<Longrightarrow>
        Q (raw # raws) g g'"
  shows "(add w path g = Inr (r, g') \<longrightarrow> P path g r g')"
    and "(add_tags w raws g = Inr g' \<longrightarrow> Q raws g g')"
proof -
  have "(\<forall>r g'. w' = w \<longrightarrow> add w' path g = Inr (r, g') \<longrightarrow> P path g r g')"
    and "(\<forall>g'. w' = w \<longrightarrow> add_tags w' raws g = Inr g' \<longrightarrow> Q raws g g')" for w'
  proof (induction w' path g and w' raws g rule: add_add_tags.induct)
    case (1 w' path g)
    show ?case
    proof (intro allI impI)
      fix r g'
      assume w: "w' = w" and run: "add w' path g = Inr (r, g')"
      from run[unfolded w] show "P path g r g'"
      proof (cases rule: add_Inr_cases)
        case (unreadable e)
        then show ?thesis using assms(1) by simp
      next
        case (included src n)
        then show ?thesis using assms(2) by simp
      next
        case (appended src n)
        from 1[OF appended(1)[folded w] appended(2) appended(3) refl refl] w appended(5)
        have "Q (FindAllString reTemplateTag src)
               (g\<lparr>cache := cache g @ [\<lparr>Name = n, Src = src\<rparr>]\<rparr>) g'"
          by simp
        with appended show ?thesis using assms(3) by simp
      qed
    qed
  next
    case (2 w' g)
    show ?case by (simp add: add_tags.simps Nil)
  next
    case (3 w' raw raws g)
    show ?case
    proof (intro allI impI)
      fix g'
      assume w: "w' = w" and run: "add_tags w' (raw # raws) g = Inr g'"
      from run[unfolded w] obtain t r g1 where
        t: "index (FindStringSubmatch reTemplateTag raw) 1 = Inr t" and
        a: "add w (Join (basePath g) t) g = Inr (r, g1)" and
        b: "add_tags w raws g1 = Inr g'"
        by (rule add_tags_Inr_cases)
      have c: "\<not> \<not> Contains t (Ext t)" by (simp add: Contains_Ext)
      from 3(2)[OF t refl c] w a have p: "P (Join (basePath g) t) g r g1" by simp
      from 3(3)[OF t refl c a[folded w] refl] w b have q: "Q raws g1 g'" by simp
      from Cons[OF t a p b q] show "Q (raw # raws) g g'" .
    qed
  qed
  then show "(add w path g = Inr (r, g') \<longrightarrow> P path g r g')"
    and "(add_tags w raws g = Inr g' \<longrightarrow> Q raws g g')" by blast+
qed

text \<open>The includer changes no package variable but the cache.\<close>

lemma add_frame:
  "add w path g = Inr (r, g') \<longrightarrow>
     regularTemplateDefs g' = regularTemplateDefs g \<and> basePath g' = basePath g \<and> exts g' = exts g"
  "add_tags w raws g = Inr g' \<longrightarrow>
     regularTemplateDefs g' = regularTemplateDefs g \<and> basePath g' = basePath g \<and> exts g' = exts g"
  by (induction rule: add_runs_induct[where w = w]) simp_all

subsection \<open>Concrete inputs\<close>

text \<open>
  The package variables after \<open>Load\<close> has stored the root \<open>/tpl\<close> and the extension
  \<open>.html\<close>, with an empty cache; and trees of files under that root.
\<close>

definition tpl :: globals where
  "tpl = \<lparr>cache = [], regularTemplateDefs = [], basePath = ''/tpl'', exts = [''.html'']\<rparr>"

definition world_title :: world where
  \<open>world_title =
     \<lparr>files = [(''/tpl/index.html'', ''{{ template "title" }}''), (''/tpl/title'', ''T'')],
      Walk = (\<lambda>root. [''/tpl'', ''/tpl/index.html'', ''/tpl/title'']),
      Parse = (\<lambda>funcMap src. None)\<rparr>\<close>

definition world_nav :: world where
  \<open>world_nav =
     \<lparr>files = [(''/tpl/index.html'', ''{{ template "nav.html" }}{{ template "nav.html" }}''),
               (''/tpl/nav.html'', ''Nav'')],
      Walk = (\<lambda>root. [''/tpl'', ''/tpl/index.html'', ''/tpl/nav.html'']),
      Parse = (\<lambda>funcMap src. None)\<rparr>\<close>

definition cached_nav :: globals where
  \<open>cached_nav = tpl\<lparr>cache := [\<lparr>Name = ''index.html'', Src = ''{{ template "nav.html" }}{{ template "nav.html" }}''\<rparr>,
                                 \<lparr>Name = ''nav.html'', Src = ''Nav''\<rparr>]\<rparr>\<close>

definition options_tpl :: Options where
  "options_tpl = \<lparr>Directory = ''/tpl'', Extensions = [''.html''], Funcs = []\<rparr>"

definition world_missing :: world where
  \<open>world_missing =
     \<lparr>files = [(''/tpl/index.html'', ''{{ template "missing.html" }}'')],
      Walk = (\<lambda>root. [''/tpl'', ''/tpl/index.html'']),
      Parse = (\<lambda>funcMap src. None)\<rparr>\<close>

definition world_empty :: world where
  \<open>world_empty =
     \<lparr>files = [(''/tpl/empty.tmpl'', []), (''/tpl/index.html'', ''{{ template "empty.tmpl" }}'')],
      Walk = (\<lambda>root. [''/tpl'', ''/tpl/empty.tmpl'', ''/tpl/index.html'']),
      Parse = (\<lambda>funcMap src. None)\<rparr>\<close>

definition world_two :: world where
  \<open>world_two =
     \<lparr>files = [(''/tpl/a.html'', ''A{{ template "b.html" }}''), (''/tpl/b.html'', ''B'')],
      Walk = (\<lambda>root. [''/tpl'', ''/tpl/a.html'', ''/tpl/b.html'']),
      Parse = (\<lambda>funcMap src. None)\<rparr>\<close>


definition world_second_empty :: world where
  \<open>world_second_empty =
     \<lparr>files = [(''/tpl/a.html'', ''A''), (''/tpl/b.html'', [])],
      Walk = (\<lambda>root. [''/tpl'', ''/tpl/a.html'', ''/tpl/b.html'']),
      Parse = (\<lambda>funcMap src. None)\<rparr>\<close>

definition world_syntax :: world where
  \<open>world_syntax =
     \<lparr>files = [(''/tpl/a.html'', ''A''), (''/tpl/b.html'', ''{{ template "c.html" }}''),
               (''/tpl/c.html'', ''{{ if }}'')],
      Walk = (\<lambda>root. [''/tpl'', ''/tpl/a.html'', ''/tpl/b.html'', ''/tpl/c.html'']),
      Parse = (\<lambda>funcMap src. if src = ''{{ if }}'' then Some ''missing value for if'' else None)\<rparr>\<close>






subsection \<open>C1: targets with and without an extension\<close>

text \<open>
  C1 says that a "template" target with a file extension is loaded as a file below the
  root, and that a target without one is appended to \<open>regularTemplateDefs\<close> and is not
  treated as a file path. The includer does the first for every target and never the
  second (\<open>Contains_Ext\<close>, \<open>add_tags_Cons\<close>, \<open>add_frame\<close>). Here \<open>index.html\<close> refers to
  \<open>title\<close>, which has no extension: the file \<open>/tpl/title\<close> is read and cached as a
  fragment, and \<open>regularTemplateDefs\<close> stays empty.
\<close>

theorem add_symbolic_target_read_as_file:
  \<open>Ext ''title'' = [] \<and>
   add world_title ''/tpl/index.html'' tpl =
     Inr (None, tpl\<lparr>cache := [\<lparr>Name = ''index.html'', Src = ''{{ template "title" }}''\<rparr>,
                               \<lparr>Name = ''title'', Src = ''T''\<rparr>]\<rparr>)\<close>
  by code_simp

subsection \<open>C8: names in the cache are unique\<close>

lemma add_names_distinct:
  "add w path g = Inr (r, g') \<longrightarrow>
     distinct (map Name (cache g)) \<longrightarrow> distinct (map Name (cache g'))"
  "add_tags w raws g = Inr g' \<longrightarrow>
     distinct (map Name (cache g)) \<longrightarrow> distinct (map Name (cache g'))"
  by (induction rule: add_runs_induct[where w = w]) simp_all

text \<open>
  C8: the names of the fragments in the cache are pairwise different, and every call of
  the includer keeps them so; a call for a name that is already in the cache changes
  nothing.
\<close>

theorem add_keeps_names_unique:
  assumes "distinct (map Name (cache g))"
    and "add w path g = Inr (r, g')"
  shows "distinct (map Name (cache g')) \<and>
         (\<forall>n. generateTemplateName (basePath g) path = Inr n \<and> n \<in> set (map Name (cache g))
              \<longrightarrow> g' = g)"
proof
  from assms add_names_distinct(1)[of w path g r g']
  show "distinct (map Name (cache g'))" by simp
  show "\<forall>n. generateTemplateName (basePath g) path = Inr n \<and> n \<in> set (map Name (cache g))
              \<longrightarrow> g' = g"
    using assms(2) by (cases rule: add_Inr_cases) auto
qed

theorem add_keeps_names_unique_witness:
  "distinct (map Name (cache cached_nav)) \<and>
   add world_nav ''/tpl/nav.html'' cached_nav = Inr (None, cached_nav) \<and>
   generateTemplateName (basePath cached_nav) ''/tpl/nav.html'' = Inr ''nav.html'' \<and>
   ''nav.html'' \<in> set (map Name (cache cached_nav)) \<and>
   add world_nav ''/tpl/index.html'' tpl = Inr (None, cached_nav)"
proof -
  have d: "distinct (map Name (cache cached_nav))" by code_simp
  have a: "add world_nav ''/tpl/nav.html'' cached_nav = Inr (None, cached_nav)" by code_simp
  have n: "generateTemplateName (basePath cached_nav) ''/tpl/nav.html'' = Inr ''nav.html''" by code_simp
  have m: "''nav.html'' \<in> set (map Name (cache cached_nav))" by code_simp
  have b: "add world_nav ''/tpl/index.html'' tpl = Inr (None, cached_nav)" by code_simp
  from add_keeps_names_unique[OF d a] d a n m b show ?thesis by simp
qed

subsection \<open>C3: a fragment that cannot be loaded, reached through a "template" tag\<close>

text \<open>
  C3 says that when a file included through a "template" tag cannot be loaded, the
  failure aborts the compile pass. Line 156 drops the error that the recursive call
  returns, while line 60 checks the error of the call for the entry file. Here
  \<open>index.html\<close> includes \<open>missing.html\<close>, which does not exist: the includer returns nil
  and \<open>Load\<close> returns a unit for \<open>index.html\<close> and no error.
\<close>

theorem included_unreadable_file_not_fatal:
  \<open>file_content world_missing ''/tpl/missing.html'' = Inl (ReadFileError ''/tpl/missing.html'') \<and>
   add world_missing ''/tpl/index.html'' tpl =
     Inr (None, tpl\<lparr>cache := [\<lparr>Name = ''index.html'', Src = ''{{ template "missing.html" }}''\<rparr>]\<rparr>) \<and>
   (case Load world_missing options_tpl init of
      Inl p \<Rightarrow> False
    | Inr ((templates, err), g) \<Rightarrow>
        err = None \<and>
        map_of templates ''index.html'' =
          Some (Some \<lparr>root = ''index.html'',
                       texts = [(''index.html'', ''{{ template "missing.html" }}'')]\<rparr>))\<close>
  by code_simp

subsection \<open>C5: a file of zero bytes\<close>

lemma file_content_zero_bytes:
  "map_of (files w) path = Some [] \<Longrightarrow> file_content w path = Inl EmptyTemplateError"
  by (simp add: file_content_def)

text \<open>
  C5 says that loading a file of zero bytes fails with the error of the empty template,
  and that this aborts the compile pass. The first holds (\<open>file_content_zero_bytes\<close>), and
  the includer returns that error for the file and caches nothing for it. The second
  fails when the file is included through a "template" tag, by the dropped error of
  line 156. Here the root holds \<open>index.html\<close> and the empty \<open>empty.tmpl\<close>, whose extension
  is not among the recognised ones, so the walk passes it by; \<open>index.html\<close> includes it,
  and \<open>Load\<close> returns a unit for \<open>index.html\<close> and no error.
\<close>

theorem included_empty_file_not_fatal:
  \<open>file_content world_empty ''/tpl/empty.tmpl'' = Inl EmptyTemplateError \<and>
   add world_empty ''/tpl/empty.tmpl'' tpl = Inr (Some EmptyTemplateError, tpl) \<and>
   walkFn world_empty [] ''/tpl/empty.tmpl'' ([], tpl) = Inr (None, [], tpl) \<and>
   add world_empty ''/tpl/index.html'' tpl =
     Inr (None, tpl\<lparr>cache := [\<lparr>Name = ''index.html'', Src = ''{{ template "empty.tmpl" }}''\<rparr>]\<rparr>) \<and>
   Load world_empty options_tpl init =
     Inr (([(''index.html'',
             Some \<lparr>root = ''index.html'',
                    texts = [(''index.html'', ''{{ template "empty.tmpl" }}'')]\<rparr>)],
           None), tpl)\<close>
  by code_simp

subsection \<open>C10: the cache is emptied after every pass\<close>

lemma walkFn_Inr_None_cases:
  assumes "walkFn w funcMap path (templates, g) = Inr (None, templates', g')"
    and "Rel (basePath g) path = Inr r" and "inExtensions g (Ext r)"
  obtains g1 c baseTmpl tname where
    "add w path g = Inr (None, g1)"
    "resolve (regularTemplateDefs g1) (cache g1) = Inr c"
    "parse_cache w funcMap c 0 None = Inr baseTmpl"
    "generateTemplateName (basePath g1) path = Inr tname"
    "templates' = AList.update tname baseTmpl templates"
    "g' = g1\<lparr>cache := []\<rparr>"
  using assms
  by (auto simp: walkFn_def split: sum.splits prod.splits option.splits)

text \<open>
  C10: when the callback has compiled a file with a recognised extension and stored its
  unit in the map, it leaves the cache empty, and the walk goes on to the next paths
  with that empty cache.
\<close>

theorem walkFn_resets_cache:
  assumes "walkFn w funcMap path (templates, g) = Inr (None, templates', g')"
    and "Rel (basePath g) path = Inr r" and "inExtensions g (Ext r)"
  shows "cache g' = [] \<and>
         (\<exists>tname baseTmpl. generateTemplateName (basePath g) path = Inr tname \<and>
            templates' = AList.update tname baseTmpl templates) \<and>
         walk_paths w funcMap (path # paths) (templates, g) =
           walk_paths w funcMap paths (templates', g')"
  using assms(1)
proof (cases rule: walkFn_Inr_None_cases[OF assms])
  case (1 g1 c baseTmpl tname)
  from add_frame(1)[of w path g None g1] 1(1) have "basePath g1 = basePath g" by simp
  with 1 assms(1) show ?thesis by auto
qed

theorem walkFn_resets_cache_witness:
  \<open>walkFn world_two [] ''/tpl/a.html'' ([], tpl) =
     Inr (None,
          [(''a.html'', Some \<lparr>root = ''a.html'',
                             texts = [(''a.html'', ''A{{ template "b.html" }}''), (''b.html'', ''B'')]\<rparr>)],
          tpl) \<and>
   Rel (basePath tpl) ''/tpl/a.html'' = Inr ''a.html'' \<and>
   inExtensions tpl (Ext ''a.html'') \<and>
   cache (snd (projr (add world_two ''/tpl/a.html'' tpl))) \<noteq> [] \<and>
   cache tpl = []\<close>
proof -
  have 1: \<open>walkFn world_two [] ''/tpl/a.html'' ([], tpl) =
     Inr (None,
          [(''a.html'', Some \<lparr>root = ''a.html'',
                             texts = [(''a.html'', ''A{{ template "b.html" }}''), (''b.html'', ''B'')]\<rparr>)],
          tpl)\<close> by code_simp
  have 2: "Rel (basePath tpl) ''/tpl/a.html'' = Inr ''a.html''" by code_simp
  have 3: "inExtensions tpl (Ext ''a.html'')" by code_simp
  have 4: "cache (snd (projr (add world_two ''/tpl/a.html'' tpl))) \<noteq> []" by code_simp
  from walkFn_resets_cache[OF 1 2 3] 1 2 3 4 show ?thesis by simp
qed

subsection \<open>C9: loading twice\<close>






subsection \<open>C4: a failing pass\<close>

lemma walk_paths_append:
  "walk_paths w funcMap (xs @ ys) tg =
     (case walk_paths w funcMap xs tg of
        Inl p \<Rightarrow> Inl p
      | Inr (Some err, tg') \<Rightarrow> Inr (Some err, tg')
      | Inr (None, tg') \<Rightarrow> walk_paths w funcMap ys tg')"
  by (induction xs arbitrary: tg) (auto split: sum.splits option.splits prod.splits)

text \<open>
  C4 says that when the pass of some file fails, the walk stops, the error is the error
  value that is returned, and no partial map is returned. The error is not returned:
  lines 60 to 62 and line 103 panic with it. Here the pass of \<open>a.html\<close> succeeds, the file
  \<open>b.html\<close> is empty, and \<open>Load\<close> panics with the error of the empty template.
\<close>

theorem failing_pass_error_not_returned:
  "walk_paths world_second_empty [] [''/tpl'', ''/tpl/a.html''] ([], tpl) =
     Inr (None, [(''a.html'', Some \<lparr>root = ''a.html'', texts = [(''a.html'', ''A'')]\<rparr>)], tpl) \<and>
   add world_second_empty ''/tpl/b.html'' tpl = Inr (Some EmptyTemplateError, tpl) \<and>
   Load world_second_empty options_tpl init = Inl EmptyTemplateError"
  by code_simp

text \<open>
  C4 as amended: when the pass of some file fails (the includer returns an error for the
  file, or a fragment of the cache does not parse), the load panics with that error; it
  returns neither an error value nor a map.
\<close>

theorem failing_pass_panics:
  assumes "Walk w (basePath g0) = before @ path # after"
    and "walk_paths w funcMap before ([], g0) = Inr (None, templates, g)"
    and "Rel (basePath g) path = Inr r" and "inExtensions g (Ext r)"
    and "add w path g = Inr (Some err, g1) \<or>
         (add w path g = Inr (None, g1) \<and>
          resolve (regularTemplateDefs g1) (cache g1) = Inr c \<and>
          parse_cache w funcMap c 0 None = Inl err)"
  shows "loadTemplates w funcMap g0 = Inl err"
proof -
  from assms(3,4,5) have "walkFn w funcMap path (templates, g) = Inl err"
    by (auto simp: walkFn_def)
  with assms(1,2) show ?thesis
    by (simp add: loadTemplates_def walk_paths_append)
qed

theorem failing_pass_panics_witness:
  "Walk world_second_empty (basePath tpl) = [''/tpl'', ''/tpl/a.html''] @ ''/tpl/b.html'' # [] \<and>
   walk_paths world_second_empty [] [''/tpl'', ''/tpl/a.html''] ([], tpl) =
     Inr (None, [(''a.html'', Some \<lparr>root = ''a.html'', texts = [(''a.html'', ''A'')]\<rparr>)], tpl) \<and>
   Rel (basePath tpl) ''/tpl/b.html'' = Inr ''b.html'' \<and>
   inExtensions tpl (Ext ''b.html'') \<and>
   add world_second_empty ''/tpl/b.html'' tpl = Inr (Some EmptyTemplateError, tpl) \<and>
   loadTemplates world_second_empty [] tpl = Inl EmptyTemplateError"
proof -
  have 1: "Walk world_second_empty (basePath tpl) = [''/tpl'', ''/tpl/a.html''] @ ''/tpl/b.html'' # []"
    by code_simp
  have 2: "walk_paths world_second_empty [] [''/tpl'', ''/tpl/a.html''] ([], tpl) =
     Inr (None, [(''a.html'', Some \<lparr>root = ''a.html'', texts = [(''a.html'', ''A'')]\<rparr>)], tpl)"
    by code_simp
  have 3: "Rel (basePath tpl) ''/tpl/b.html'' = Inr ''b.html''" by code_simp
  have 4: "inExtensions tpl (Ext ''b.html'')" by code_simp
  have 5: "add world_second_empty ''/tpl/b.html'' tpl = Inr (Some EmptyTemplateError, tpl)"
    by code_simp
  from failing_pass_panics[OF 1 2 3 4 disjI1, OF 5] 1 2 3 4 5 show ?thesis by simp
qed

subsection \<open>C6: a fragment that does not parse\<close>

lemma parse_cache_first_error:
  assumes "nt \<in> set c" and "Parse w funcMap (Src nt) = Some syn"
    and "i = 0 \<or> baseTmpl \<noteq> None"
  shows "\<exists>nt' e. nt' \<in> set c \<and> Parse w funcMap (Src nt') = Some e \<and>
           parse_cache w funcMap c i baseTmpl = Inl (ParseError e)"
  using assms
proof (induction c arbitrary: i baseTmpl)
  case Nil
  then show ?case by simp
next
  case (Cons x c)
  show ?case
  proof (cases "Parse w funcMap (Src x)")
    case (Some e)
    with Cons.prems(3) have "parse_cache w funcMap (x # c) i baseTmpl = Inl (ParseError e)"
      by (auto split: option.splits)
    with Some show ?thesis by auto
  next
    case None
    with Cons.prems have "nt \<in> set c" by auto
    from None Cons.prems(3) have
      "\<exists>b. parse_cache w funcMap (x # c) i baseTmpl = parse_cache w funcMap c (i + 1) (Some b)"
      by (cases baseTmpl; cases "i = 0") auto
    then obtain b where
      step: "parse_cache w funcMap (x # c) i baseTmpl = parse_cache w funcMap c (i + 1) (Some b)" ..
    from Cons.IH[OF \<open>nt \<in> set c\<close> Cons.prems(2), of "i + 1" "Some b"] obtain nt' e where
      "nt' \<in> set c" "Parse w funcMap (Src nt') = Some e"
      "parse_cache w funcMap c (i + 1) (Some b) = Inl (ParseError e)"
      by auto
    with step show ?thesis by auto
  qed
qed

text \<open>
  C6: when, in the pass of some file, a fragment of the resolved cache does not parse,
  the whole load fails: it panics with the syntax error of a fragment of that cache (the
  first that does not parse), and nothing is returned.
\<close>

theorem parse_error_panics_load:
  assumes "Walk w (basePath g0) = before @ path # after"
    and "walk_paths w funcMap before ([], g0) = Inr (None, templates, g)"
    and "Rel (basePath g) path = Inr r" and "inExtensions g (Ext r)"
    and "add w path g = Inr (None, g1)"
    and "resolve (regularTemplateDefs g1) (cache g1) = Inr c"
    and "nt \<in> set c" and "Parse w funcMap (Src nt) = Some syn"
  shows "\<exists>nt' e. nt' \<in> set c \<and> Parse w funcMap (Src nt') = Some e \<and>
           loadTemplates w funcMap g0 = Inl (ParseError e)"
proof -
  from parse_cache_first_error[OF assms(7,8), of 0 None] obtain nt' e where
    e: "nt' \<in> set c" "Parse w funcMap (Src nt') = Some e"
       "parse_cache w funcMap c 0 None = Inl (ParseError e)"
    by auto
  from assms(3,4,5,6) e(3) have "walkFn w funcMap path (templates, g) = Inl (ParseError e)"
    by (simp add: walkFn_def)
  with assms(1,2) have "loadTemplates w funcMap g0 = Inl (ParseError e)"
    by (simp add: loadTemplates_def walk_paths_append)
  with e show ?thesis by blast
qed

theorem parse_error_panics_load_witness:
  \<open>Walk world_syntax (basePath tpl) = [''/tpl'', ''/tpl/a.html''] @ ''/tpl/b.html'' # [''/tpl/c.html''] \<and>
   walk_paths world_syntax [] [''/tpl'', ''/tpl/a.html''] ([], tpl) =
     Inr (None, [(''a.html'', Some \<lparr>root = ''a.html'', texts = [(''a.html'', ''A'')]\<rparr>)], tpl) \<and>
   Rel (basePath tpl) ''/tpl/b.html'' = Inr ''b.html'' \<and>
   inExtensions tpl (Ext ''b.html'') \<and>
   add world_syntax ''/tpl/b.html'' tpl =
     Inr (None, tpl\<lparr>cache := [\<lparr>Name = ''b.html'', Src = ''{{ template "c.html" }}''\<rparr>,
                               \<lparr>Name = ''c.html'', Src = ''{{ if }}''\<rparr>]\<rparr>) \<and>
   Parse world_syntax [] ''{{ if }}'' = Some ''missing value for if'' \<and>
   loadTemplates world_syntax [] tpl = Inl (ParseError ''missing value for if'')\<close>
proof -
  let ?b = \<open>\<lparr>Name = ''b.html'', Src = ''{{ template "c.html" }}''\<rparr>\<close>
  let ?c = \<open>\<lparr>Name = ''c.html'', Src = ''{{ if }}''\<rparr>\<close>
  let ?g1 = "tpl\<lparr>cache := [?b, ?c]\<rparr>"
  have 1: "Walk world_syntax (basePath tpl) =
             [''/tpl'', ''/tpl/a.html''] @ ''/tpl/b.html'' # [''/tpl/c.html'']"
    by code_simp
  have 2: "walk_paths world_syntax [] [''/tpl'', ''/tpl/a.html''] ([], tpl) =
     Inr (None, [(''a.html'', Some \<lparr>root = ''a.html'', texts = [(''a.html'', ''A'')]\<rparr>)], tpl)"
    by code_simp
  have 3: "Rel (basePath tpl) ''/tpl/b.html'' = Inr ''b.html''" by code_simp
  have 4: "inExtensions tpl (Ext ''b.html'')" by code_simp
  have 5: "add world_syntax ''/tpl/b.html'' tpl = Inr (None, ?g1)" by code_simp
  have 6: "resolve (regularTemplateDefs ?g1) (cache ?g1) = Inr [?b, ?c]" by code_simp
  have 7: "?c \<in> set [?b, ?c]" by simp
  have 8: "Parse world_syntax [] (Src ?c) = Some ''missing value for if''" by code_simp
  have 9: "Parse world_syntax [] ''{{ if }}'' = Some ''missing value for if''" by code_simp
  have 10: "loadTemplates world_syntax [] tpl = Inl (ParseError ''missing value for if'')"
    by code_simp
  from parse_error_panics_load[OF 1 2 3 4 5 6 7 8] 1 2 3 4 5 9 10 show ?thesis by simp
qed

subsection \<open>C7: cycles of "template" tags\<close>















fun stars :: "rx list \<Rightarrow> nat" where
  "stars [] = 0"
| "stars (Star P # r) = Suc (stars r)"
| "stars (x # r) = stars r"

lemma rmatch_groups: "rmatch re s = Some (gs, rest) \<Longrightarrow> length gs = stars re"
proof (induction re s arbitrary: gs rest rule: rmatch.induct)
  case (7 P r x xs)
  show ?case
  proof (cases "if P x then rmatch (Star P # r) xs else None")
    case None
    with "7.prems" "7.IH"(2) show ?thesis
      by (auto split: option.splits prod.splits)
  next
    case (Some a)
    then have px: "P x" and a: "rmatch (Star P # r) xs = Some a" by (auto split: if_splits)
    obtain gs0 rest0 where a0: "a = (gs0, rest0)" by (cases a)
    from "7.IH"(1)[OF px a[unfolded a0]] have l: "length gs0 = Suc (stars r)" by simp
    then obtain g gs1 where "gs0 = g # gs1" by (cases gs0) auto
    with "7.prems" Some a0 l show ?thesis by auto
  qed
qed (auto split: if_splits option.splits prod.splits)

lemma rmatch_rest: "rmatch re s = Some (gs, rest) \<Longrightarrow> \<exists>m. s = m @ rest"
proof (induction re s arbitrary: gs rest rule: rmatch.induct)
  case (7 P r x xs)
  show ?case
  proof (cases "if P x then rmatch (Star P # r) xs else None")
    case None
    with "7.prems" "7.IH"(2) show ?thesis
      by (auto split: option.splits prod.splits)
  next
    case (Some a)
    then have px: "P x" and a: "rmatch (Star P # r) xs = Some a" by (auto split: if_splits)
    obtain gs0 rest0 where a0: "a = (gs0, rest0)" by (cases a)
    from rmatch_groups[OF a[unfolded a0]] obtain g gs1 where g: "gs0 = g # gs1" by (cases gs0) auto
    from "7.IH"(1)[OF px a[unfolded a0]] obtain m where "xs = m @ rest0" by blast
    then have "x # xs = (x # m) @ rest0" by simp
    with "7.prems" Some a0 g show ?thesis by auto
  qed
next
  case (3 c r x xs)
  then show ?case by (auto split: if_splits)
next
  case (5 c r x xs)
  then show ?case by (auto split: if_splits option.splits)
qed (auto split: if_splits option.splits prod.splits)







lemma search_Some:
  "search re s = Some (b, m, gs, a) \<Longrightarrow> s = b @ m @ a \<and> rmatch re (m @ a) = Some (gs, a)"
proof (induction s arbitrary: b)
  case Nil
  then obtain rest where r: "rmatch re [] = Some (gs, rest)" and "b = []" "m = []" "a = rest"
    by (auto split: option.splits)
  moreover from rmatch_rest[OF r] have "rest = []" by simp
  ultimately show ?case by simp
next
  case (Cons c s)
  show ?case
  proof (cases "rmatch re (c # s)")
    case None
    with Cons.prems obtain b' where "search re s = Some (b', m, gs, a)" "b = c # b'"
      by (auto split: option.splits)
    with Cons.IH[of b'] show ?thesis by simp
  next
    case (Some v)
    obtain gs' rest where v: "v = (gs', rest)" by (cases v)
    from rmatch_rest[OF Some[unfolded v]] obtain m' where m': "c # s = m' @ rest" by blast
    then have "take (length (c # s) - length rest) (c # s) = m'" by simp
    with Cons.prems Some v have "b = []" "m = m'" "gs = gs'" "a = rest" by auto
    with m' Some v show ?thesis by simp
  qed
qed








subsection \<open>C2: the first definition of a name wins\<close>

text \<open>
  What an item sequence matches, stated without the search order of \<open>rmatch\<close>: the
  matched text and the texts of the repetitions.
\<close>

fun matches :: "rx list \<Rightarrow> string \<Rightarrow> string list \<Rightarrow> bool" where
  "matches [] u gs = (u = [] \<and> gs = [])"
| "matches (Lit c # r) u gs = (\<exists>u'. u = c # u' \<and> matches r u' gs)"
| "matches (Opt c # r) u gs = (matches r u gs \<or> (\<exists>u'. u = c # u' \<and> matches r u' gs))"
| "matches (Star P # r) u gs =
     (\<exists>g gs' v. gs = g # gs' \<and> u = g @ v \<and> (\<forall>x \<in> set g. P x) \<and> matches r v gs')"

lemma rmatch_sound:
  "rmatch re s = Some (gs, rest) \<Longrightarrow> \<exists>u. s = u @ rest \<and> matches re u gs"
proof (induction re s arbitrary: gs rest rule: rmatch.induct)
  case (1 s)
  then show ?case by simp
next
  case (2 c r)
  then show ?case by simp
next
  case (3 c r x xs)
  then have "x = c" "rmatch r xs = Some (gs, rest)" by (auto split: if_splits)
  with "3.IH" obtain u where "xs = u @ rest" "matches r u gs" by blast
  with \<open>x = c\<close> have "x # xs = (c # u) @ rest \<and> matches (Lit c # r) (c # u) gs" by simp
  then show ?case by blast
next
  case (4 c r)
  then show ?case by auto
next
  case (5 c r x xs)
  show ?case
  proof (cases "x = c \<and> rmatch r xs \<noteq> None")
    case True
    with "5.prems" have xc: "x = c" and a: "rmatch r xs = Some (gs, rest)" by auto
    from "5.IH"(1)[OF xc a] obtain u where "xs = u @ rest" "matches r u gs" by blast
    with xc have "x # xs = (c # u) @ rest \<and> matches (Opt c # r) (c # u) gs" by simp
    then show ?thesis by blast
  next
    case False
    with "5.prems" have a: "rmatch r (x # xs) = Some (gs, rest)"
      by (auto split: if_splits option.splits)
    have "\<exists>u. x # xs = u @ rest \<and> matches r u gs"
    proof (cases "x = c")
      case True
      with False have "rmatch r xs = None" by (cases "rmatch r xs") auto
      from "5.IH"(2)[OF True this a] show ?thesis .
    next
      case False
      from "5.IH"(3)[OF False a] show ?thesis .
    qed
    then show ?thesis by auto
  qed
next
  case (6 P r)
  then obtain gs' where "rmatch r [] = Some (gs', rest)" "gs = [] # gs'"
    by (auto split: option.splits prod.splits)
  with "6.IH" obtain u where "[] = u @ rest" "matches r u gs'" by blast
  with \<open>gs = [] # gs'\<close> show ?case by auto
next
  case (7 P r x xs)
  show ?case
  proof (cases "if P x then rmatch (Star P # r) xs else None")
    case None
    with "7.prems" obtain gs' where a: "rmatch r (x # xs) = Some (gs', rest)" and g: "gs = [] # gs'"
      by (auto split: option.splits prod.splits)
    from "7.IH"(2)[OF None a] obtain u where "x # xs = u @ rest" "matches r u gs'" by blast
    with g have "x # xs = u @ rest \<and> matches (Star P # r) u gs" by auto
    then show ?thesis by blast
  next
    case (Some v)
    then have px: "P x" and a: "rmatch (Star P # r) xs = Some v" by (auto split: if_splits)
    obtain gs0 rest0 where v: "v = (gs0, rest0)" by (cases v)
    from "7.IH"(1)[OF px a[unfolded v]] obtain u where
      u: "xs = u @ rest0" "matches (Star P # r) u gs0" by blast
    then obtain g gs' w where g: "gs0 = g # gs'" "u = g @ w" "\<forall>y \<in> set g. P y" "matches r w gs'"
      by auto
    with "7.prems" Some v have "gs = (x # g) # gs'" "rest = rest0" by auto
    with u g px have "x # xs = (x # u) @ rest \<and> matches (Star P # r) (x # u) gs"
      by (auto intro!: exI[of _ "x # g"])
    then show ?thesis by blast
  qed
qed




lemma matches_appendD:
  "matches (r1 @ r2) u gs \<Longrightarrow>
     \<exists>u1 u2 g1 g2. u = u1 @ u2 \<and> gs = g1 @ g2 \<and> matches r1 u1 g1 \<and> matches r2 u2 g2"
proof (induction r1 arbitrary: u gs)
  case Nil
  then show ?case by simp
next
  case (Cons a r1)
  show ?case
  proof (cases a)
    case (Lit c)
    with Cons.prems obtain u' where u': "u = c # u'" "matches (r1 @ r2) u' gs" by auto
    from Cons.IH[OF u'(2)] obtain u1 u2 g1 g2 where
      "u' = u1 @ u2" "gs = g1 @ g2" "matches r1 u1 g1" "matches r2 u2 g2" by blast
    with u'(1) have "u = (c # u1) @ u2 \<and> gs = g1 @ g2 \<and> matches (a # r1) (c # u1) g1 \<and> matches r2 u2 g2"
      by (simp add: Lit)
    then show ?thesis by blast
  next
    case (Opt c)
    with Cons.prems have "matches (r1 @ r2) u gs \<or> (\<exists>u'. u = c # u' \<and> matches (r1 @ r2) u' gs)"
      by simp
    then show ?thesis
    proof
      assume "matches (r1 @ r2) u gs"
      from Cons.IH[OF this] obtain u1 u2 g1 g2 where
        "u = u1 @ u2" "gs = g1 @ g2" "matches r1 u1 g1" "matches r2 u2 g2" by blast
      then have "u = u1 @ u2 \<and> gs = g1 @ g2 \<and> matches (a # r1) u1 g1 \<and> matches r2 u2 g2"
        by (simp add: Opt)
      then show ?thesis by blast
    next
      assume "\<exists>u'. u = c # u' \<and> matches (r1 @ r2) u' gs"
      then obtain u' where u': "u = c # u'" "matches (r1 @ r2) u' gs" by blast
      from Cons.IH[OF u'(2)] obtain u1 u2 g1 g2 where
        "u' = u1 @ u2" "gs = g1 @ g2" "matches r1 u1 g1" "matches r2 u2 g2" by blast
      with u'(1) have "u = (c # u1) @ u2 \<and> gs = g1 @ g2 \<and> matches (a # r1) (c # u1) g1 \<and> matches r2 u2 g2"
        by (simp add: Opt)
      then show ?thesis by blast
    qed
  next
    case (Star P)
    with Cons.prems obtain g gs' v where
      g: "gs = g # gs'" "u = g @ v" "\<forall>x \<in> set g. P x" "matches (r1 @ r2) v gs'" by auto
    from Cons.IH[OF g(4)] obtain u1 u2 g1 g2 where
      d: "v = u1 @ u2" "gs' = g1 @ g2" "matches r1 u1 g1" "matches r2 u2 g2" by blast
    with g have "u = (g @ u1) @ u2 \<and> gs = (g # g1) @ g2 \<and> matches (a # r1) (g @ u1) (g # g1) \<and> matches r2 u2 g2"
      by (auto simp: Star)
    then show ?thesis by blast
  qed
qed

text \<open>The three parts of reDefineTag\<close>

definition define_head :: "rx list" where
  \<open>define_head = map Lit ''{{'' @ [Opt CHR '' ''] @ map Lit ''define "''\<close>

definition define_tail :: "rx list" where
  \<open>define_tail =
     [Lit CHR ''"'', Opt CHR '' '', Opt CHR ''"'',
      Star alnum, Opt CHR ''"'', Opt CHR '' ''] @ map Lit ''}}''\<close>

lemma reDefineTag_parts:
  \<open>reDefineTag = define_head @ [Star (\<lambda>c. c \<noteq> CHR ''"'')] @ define_tail\<close>
  by (simp add: reDefineTag_def define_head_def define_tail_def)

lemma matches_define_head:
  \<open>matches define_head u gs \<longleftrightarrow> (u = ''{{define "'' \<or> u = ''{{ define "'') \<and> gs = []\<close>
  by (auto simp: define_head_def)

definition tail_char :: "char \<Rightarrow> bool" where
  \<open>tail_char c = (c = CHR '' '' \<or> c = CHR ''"'' \<or> alnum c)\<close>

definition tail_shape :: "rx list \<Rightarrow> bool" where
  "tail_shape r = (\<forall>u gs. matches r u gs \<longrightarrow> (\<exists>v. u = v @ ''}}'' \<and> (\<forall>x \<in> set v. tail_char x)))"

lemma tail_shape_end: "tail_shape (map Lit ''}}'')"
  by (simp add: tail_shape_def)

lemma tail_shape_Opt: "tail_char c \<Longrightarrow> tail_shape r \<Longrightarrow> tail_shape (Opt c # r)"
  unfolding tail_shape_def
proof (intro allI impI)
  fix u gs
  assume c: "tail_char c"
    and r: "\<forall>u gs. matches r u gs \<longrightarrow> (\<exists>v. u = v @ ''}}'' \<and> (\<forall>x \<in> set v. tail_char x))"
    and m: "matches (Opt c # r) u gs"
  from m have "matches r u gs \<or> (\<exists>u'. u = c # u' \<and> matches r u' gs)" by simp
  then show "\<exists>v. u = v @ ''}}'' \<and> (\<forall>x \<in> set v. tail_char x)"
  proof
    assume "matches r u gs"
    with r show ?thesis by blast
  next
    assume "\<exists>u'. u = c # u' \<and> matches r u' gs"
    then obtain u' where u': "u = c # u'" "matches r u' gs" by blast
    with r obtain v where "u' = v @ ''}}''" "\<forall>x \<in> set v. tail_char x" by blast
    with u'(1) c have "u = (c # v) @ ''}}'' \<and> (\<forall>x \<in> set (c # v). tail_char x)" by simp
    then show ?thesis by blast
  qed
qed

lemma tail_shape_Star:
  "(\<And>x. P x \<Longrightarrow> tail_char x) \<Longrightarrow> tail_shape r \<Longrightarrow> tail_shape (Star P # r)"
  unfolding tail_shape_def
proof (intro allI impI)
  fix u gs
  assume c: "\<And>x. P x \<Longrightarrow> tail_char x"
    and r: "\<forall>u gs. matches r u gs \<longrightarrow> (\<exists>v. u = v @ ''}}'' \<and> (\<forall>x \<in> set v. tail_char x))"
    and m: "matches (Star P # r) u gs"
  from m obtain g gs' w where g: "u = g @ w" "\<forall>x \<in> set g. P x" "matches r w gs'" by auto
  with r obtain v where "w = v @ ''}}''" "\<forall>x \<in> set v. tail_char x" by blast
  with g c have "u = (g @ v) @ ''}}'' \<and> (\<forall>x \<in> set (g @ v). tail_char x)" by auto
  then show "\<exists>v. u = v @ ''}}'' \<and> (\<forall>x \<in> set v. tail_char x)" by blast
qed

lemma matches_define_tail:
  assumes "matches define_tail u gs"
  shows \<open>\<exists>v. u = CHR ''"'' # v @ ''}}'' \<and> (\<forall>x \<in> set v. tail_char x)\<close>
proof -
  let ?r = \<open>[Opt CHR '' '', Opt CHR ''"'',
      Star alnum, Opt CHR ''"'', Opt CHR '' ''] @ map Lit ''}}''\<close>
  have "tail_shape ?r"
    unfolding append_Cons append_Nil
    by (intro tail_shape_Opt tail_shape_Star tail_shape_end) (simp_all add: tail_char_def)
  moreover from assms obtain u' where \<open>u = CHR ''"'' # u'\<close> "matches ?r u' gs"
    by (auto simp: define_tail_def)
  ultimately show ?thesis unfolding tail_shape_def by blast
qed

lemma reDefineTag_split:
  \<open>reDefineTag = define_head @ Star (\<lambda>c. c \<noteq> CHR ''"'') # define_tail\<close>
  by (simp add: reDefineTag_parts)

lemma matches_reDefineTagD:
  assumes "matches reDefineTag u gs"
  obtains h name v g2 where \<open>u = h @ name @ CHR ''"'' # v @ ''}}''\<close>
    \<open>h = ''{{define "'' \<or> h = ''{{ define "''\<close> \<open>CHR ''"'' \<notin> set name\<close>
    \<open>\<forall>x \<in> set v. tail_char x\<close> \<open>matches define_tail (CHR ''"'' # v @ ''}}'') g2\<close>
    \<open>gs = name # g2\<close>
proof -
  from matches_appendD[OF assms[unfolded reDefineTag_split]] obtain u1 u2 g1 g2' where
    d: "u = u1 @ u2" "gs = g1 @ g2'" "matches define_head u1 g1"
       \<open>matches (Star (\<lambda>c. c \<noteq> CHR ''"'') # define_tail) u2 g2'\<close> by blast
  from d(3) have h: \<open>u1 = ''{{define "'' \<or> u1 = ''{{ define "''\<close> and g1: "g1 = []"
    by (simp_all add: matches_define_head)
  from d(4) obtain name g2 w where
    n: "g2' = name # g2" "u2 = name @ w" \<open>\<forall>x \<in> set name. x \<noteq> CHR ''"''\<close> "matches define_tail w g2"
    by auto
  from matches_define_tail[OF n(4)] obtain v where
    v: \<open>w = CHR ''"'' # v @ ''}}''\<close> \<open>\<forall>x \<in> set v. tail_char x\<close> by blast
  show ?thesis
  proof (rule that[of u1 name v g2])
    show \<open>u = u1 @ name @ CHR ''"'' # v @ ''}}''\<close> using d(1) n(2) v(1) by simp
    show \<open>CHR ''"'' \<notin> set name\<close> using n(3) by blast
    show \<open>matches define_tail (CHR ''"'' # v @ ''}}'') g2\<close> using n(4) v(1) by simp
    show "gs = name # g2" using d(2) g1 n(1) by simp
  qed (use h v in auto)
qed


lemma tail_char_brace [simp]: \<open>\<not> tail_char CHR ''}''\<close> \<open>\<not> tail_char CHR ''{''\<close> \<open>\<not> tail_char CHR ''_''\<close>
  by (simp_all add: tail_char_def alnum_def)












text \<open>
  The leftmost match: no match of the pattern begins inside the text that \<open>search\<close>
  returns as the part before the match.
\<close>

definition no_match_within :: "rx list \<Rightarrow> string \<Rightarrow> string \<Rightarrow> bool" where
  "no_match_within re b z = (\<forall>b1 b2. b = b1 @ b2 \<longrightarrow> b2 \<noteq> [] \<longrightarrow> rmatch re (b2 @ z) = None)"

lemma search_Some_no_match:
  "search re s = Some (b, m, gs, a) \<Longrightarrow> no_match_within re b (m @ a)"
proof (induction s arbitrary: b)
  case Nil
  then have "b = []" by (auto split: option.splits)
  then show ?case by (simp add: no_match_within_def)
next
  case (Cons c s)
  show ?case
  proof (cases "rmatch re (c # s)")
    case None
    with Cons.prems obtain b' where b': "search re s = Some (b', m, gs, a)" "b = c # b'"
      by (auto split: option.splits)
    from search_Some[OF b'(1)] have s: "s = b' @ m @ a" by simp
    from Cons.IH[OF b'(1)] have ih: "no_match_within re b' (m @ a)" .
    show ?thesis
      unfolding no_match_within_def
    proof (intro allI impI)
      fix b1 b2 assume e: "b = b1 @ b2" and ne: "b2 \<noteq> []"
      show "rmatch re (b2 @ m @ a) = None"
      proof (cases b1)
        case Nil
        with e b' have "b2 = c # b'" by simp
        with None s show ?thesis by simp
      next
        case (Cons x b1')
        with e b' have "b' = b1' @ b2" by simp
        with ih ne show ?thesis unfolding no_match_within_def by blast
      qed
    qed
  next
    case (Some v)
    with Cons.prems have "b = []" by (auto split: option.splits prod.splits)
    then show ?thesis by (simp add: no_match_within_def)
  qed
qed











lemma matches_define_nonempty: "matches reDefineTag m gs \<Longrightarrow> m \<noteq> []"
  by (erule matches_reDefineTagD) auto



text \<open>
  The define tags of a text in the order \<open>FindAllStringSubmatch\<close> reports them, each with
  its name (\<open>parsed[0]\<close> and \<open>parsed[1]\<close>); the define tags of the cache, fragment by
  fragment; and the texts between the tags. The tags and the texts between them make up
  the text (\<open>rebuild_source\<close>).
\<close>

definition define_tags :: "string \<Rightarrow> (string \<times> string) list" where
  "define_tags src = map (\<lambda>parsed. (parsed ! 0, parsed ! 1)) (FindAllStringSubmatch reDefineTag src)"


function define_gaps :: "string \<Rightarrow> string list" where
  "define_gaps s =
     (case search reDefineTag s of
        None \<Rightarrow> [s]
      | Some (before, m, gs, after) \<Rightarrow>
          if length after < length s then before # define_gaps after else [before, after])"
  by pat_completeness auto
termination
  by (relation "measure length") auto

declare define_gaps.simps [simp del]

fun rebuild :: "string list \<Rightarrow> string list \<Rightarrow> string" where
  "rebuild (g # gs) (m # ms) = g @ m @ rebuild gs ms"
| "rebuild gs [] = concat gs"
| "rebuild [] ms = concat ms"


lemma search_define_SomeD:
  assumes "search reDefineTag s = Some (b, m, gs, a)"
  shows "s = b @ m @ a \<and> matches reDefineTag m gs \<and> no_match_within reDefineTag b (m @ a)"
proof -
  from search_Some[OF assms] have s: "s = b @ m @ a" and r: "rmatch reDefineTag (m @ a) = Some (gs, a)"
    by simp_all
  from rmatch_sound[OF r] have "matches reDefineTag m gs" by auto
  with s search_Some_no_match[OF assms] show ?thesis by simp
qed

lemma define_tags_None: "search reDefineTag s = None \<Longrightarrow> define_tags s = []"
  by (simp add: define_tags_def FindAllStringSubmatch.simps)

lemma define_tags_Some:
  assumes "search reDefineTag s = Some (b, m, gs, a)"
  shows "define_tags s = (m, hd gs) # define_tags a"
proof -
  from search_define_SomeD[OF assms] have s: "s = b @ m @ a" and m: "matches reDefineTag m gs" by simp_all
  from matches_define_nonempty[OF m] s have len: "length a < length s" by simp
  from m have "gs \<noteq> []" by (auto elim: matches_reDefineTagD)
  then have "(m # gs) ! 1 = hd gs" by (cases gs) simp_all
  with assms len show ?thesis
    by (simp add: define_tags_def FindAllStringSubmatch.simps[of reDefineTag s])
qed

lemma define_gaps_None: "search reDefineTag s = None \<Longrightarrow> define_gaps s = [s]"
  by (simp add: define_gaps.simps)

lemma define_gaps_Some:
  assumes "search reDefineTag s = Some (b, m, gs, a)"
  shows "define_gaps s = b # define_gaps a"
proof -
  from search_define_SomeD[OF assms] have s: "s = b @ m @ a" and m: "matches reDefineTag m gs" by simp_all
  from matches_define_nonempty[OF m] s have len: "length a < length s" by simp
  with assms show ?thesis by (simp add: define_gaps.simps[of s])
qed


lemma rebuild_source: "rebuild (define_gaps s) (map fst (define_tags s)) = s"
proof (induction s rule: length_induct)
  case (1 s)
  show ?case
  proof (cases "search reDefineTag s")
    case None
    then show ?thesis by (simp add: define_gaps_None define_tags_None)
  next
    case (Some v)
    obtain b m gs a where v: "v = (b, m, gs, a)" by (cases v)
    note sr = Some[unfolded v]
    from search_define_SomeD[OF sr] have s: "s = b @ m @ a" and m: "matches reDefineTag m gs" by simp_all
    from matches_define_nonempty[OF m] s have "length a < length s" by simp
    with 1 have ih: "rebuild (define_gaps a) (map fst (define_tags a)) = a" by blast
    have "rebuild (define_gaps s) (map fst (define_tags s)) =
          b @ m @ rebuild (define_gaps a) (map fst (define_tags a))"
      by (simp add: define_gaps_Some[OF sr] define_tags_Some[OF sr])
    with ih s show ?thesis by simp
  qed
qed







































end
